theory Spec2Isabelle
  imports Main "HOL-Library.Word" "HOL-Library.Signed_Division"
begin

unbundle bit_operations_syntax

section \<open>Circular index resolution of np\_rw\_buffer\<close>

text \<open>
  The repository holds two C extension functions named \<open>get_indexes\<close>:
  \<^item> \<open>src/src/circular_indexes.c\<close>: three \<open>int\<close> variables filled by the format
    \<open>"III"\<close>, a slice when \<open>start + length <= maxsize\<close>, otherwise an int32 array
    of \<open>(start + i) % maxsize\<close>;
  \<^item> \<open>src/np_rw_buffer/_circular_indexes.c\<close>: three \<open>long long\<close> variables filled by
    the format \<open>"iii"\<close>, always a tuple of \<open>(start % maxsize) + i\<close>.
  Both are embedded below. Python integers are \<open>int\<close>, C \<open>int\<close> is \<open>32 word\<close>,
  C \<open>long long\<close> is \<open>64 word\<close>. Signed addition wraps (two's complement, as under
  \<open>-fwrapv\<close>, with which CPython and its extension modules are usually built); the
  two cases in which the C operator \<open>%\<close> has no defined result are an explicit
  fault. An error return (\<open>NULL\<close> with an exception set) is \<open>Inl\<close>, a returned
  object is \<open>Inr\<close>.
\<close>

subsection \<open>Values\<close>

type_synonym c_int = "32 word"
type_synonym c_llong = "64 word"

datatype error =
    ValueError string    \<comment> \<open>\<open>PyErr_SetString(PyExc_ValueError, msg)\<close>\<close>
  | OverflowError        \<comment> \<open>format \<open>"i"\<close>: the Python integer does not fit a C \<open>int\<close>\<close>
  | SystemError          \<comment> \<open>\<open>PyTuple_New\<close> with a negative size\<close>
  | MemoryError          \<comment> \<open>\<open>PyTuple_New\<close> without memory\<close>
  | ArithmeticFault      \<comment> \<open>\<open>a % 0\<close> or \<open>MIN % -1\<close>: undefined in C, a trap on x86\<close>

datatype pyobject =
    Slice int int int      \<comment> \<open>\<open>PySlice_New(start, stop, step)\<close>\<close>
  | NDArray "c_int list"   \<comment> \<open>one-dimensional \<open>NPY_INT32\<close> array\<close>
  | Tuple "int list"       \<comment> \<open>tuple of Python integers\<close>

text \<open>
  The heap as the two functions meet it: whether a request for \<open>n\<close> elements is
  granted, and what the memory handed out held before (\<open>PyArray_SimpleNew\<close> does
  not initialise it).
\<close>

record heap =
  grants :: "nat \<Rightarrow> bool"
  junk :: "nat \<Rightarrow> c_int"

definition msg_length :: string where
  "msg_length = ''The given length must be greater than or equal to 0.''"

definition msg_create :: string where
  "msg_create = ''Cannot create the array with the size of the given length.''"

text \<open>
  The C remainder \<open>a % b\<close> on signed operands truncates towards zero: its sign is
  the sign of \<open>a\<close>. It is only called where it is defined, see \<open>rem_undefined\<close>.
\<close>

definition c_rem :: "'a::len word \<Rightarrow> 'a word \<Rightarrow> 'a word" where
  "c_rem a b = word_of_int (sint a smod sint b)"

definition rem_undefined :: "'a::len word \<Rightarrow> 'a word \<Rightarrow> bool" where
  "rem_undefined a b = (b = 0 \<or> (sint a = - (2 ^ (LENGTH('a) - 1)) \<and> b = - 1))"

subsection \<open>\<open>src/src/circular_indexes.c\<close>\<close>

text \<open>
  \<open>PyArg_ParseTupleAndKeywords(args, kwds, "III", kwlist, &start, &length, &maxsize)\<close>:
  format \<open>I\<close> converts a Python integer to a C \<open>unsigned int\<close> without overflow
  checking, that is modulo \<open>2^32\<close>; the three targets are \<open>int\<close> variables, which
  read the same 32 bits as signed. On three integers it cannot fail.
\<close>

definition parse_III :: "int \<Rightarrow> int \<Rightarrow> int \<Rightarrow> error + (c_int \<times> c_int \<times> c_int)" where
  "parse_III py_start py_length py_maxsize =
     Inr (word_of_int py_start, word_of_int py_length, word_of_int py_maxsize)"

text \<open>
  The loop \<open>for(i=0; i < length; i++) data[i] = (start + i) % maxsize;\<close> from the
  state in which \<open>i\<close> has its current value.
\<close>

function fill_data :: "c_int \<Rightarrow> c_int \<Rightarrow> c_int \<Rightarrow> c_int \<Rightarrow> c_int list \<Rightarrow> error + c_int list" where
  "fill_data start length' maxsize i data =
     (if i <s length' then
        (if rem_undefined (start + i) maxsize then Inl ArithmeticFault
         else fill_data start length' maxsize (i + 1)
                (data[nat (sint i) := c_rem (start + i) maxsize]))
      else Inr data)"
  by pat_completeness auto
termination
proof (relation "measure (\<lambda>(start, length', maxsize, i, data). nat (sint length' - sint i))")
  show "wf (measure (\<lambda>(start, length', maxsize, i, data). nat (sint length' - sint i)))"
    by simp
next
  fix start length' maxsize i :: c_int and data :: "c_int list"
  assume "i <s length'"
  then have lt: "sint i < sint length'"
    by (simp add: word_sless_alt)
  have "sint length' < 2 ^ (LENGTH(32) - 1)"
    by (rule sint_lt)
  with lt have up: "sint i + 1 < 2 ^ (LENGTH(32) - 1)"
    by linarith
  have lo: "- (2 ^ (LENGTH(32) - 1)) \<le> sint i + 1"
    using sint_ge [of i] by linarith
  have "sint (i + 1) = signed_take_bit (LENGTH(32) - 1) (sint i + sint (1 :: c_int))"
    by (rule sint_word_add)
  also have "\<dots> = sint i + 1"
    using lo up by (simp add: signed_take_bit_int_eq_self)
  finally have "sint (i + 1) = sint i + 1" .
  with lt show "((start, length', maxsize, i + 1, data[nat (sint i) := c_rem (start + i) maxsize]),
                 (start, length', maxsize, i, data))
                \<in> measure (\<lambda>(start, length', maxsize, i, data). nat (sint length' - sint i))"
    by simp
qed

declare fill_data.simps [simp del]

text \<open>
  \<open>get_indexes\<close> on the heap \<open>h\<close>: \<open>PyArray_SimpleNew\<close> fails unless \<open>h\<close> grants
  \<open>length\<close> elements, and the fresh array holds \<open>junk h\<close> until the loop writes it.
\<close>

definition get_indexes :: "heap \<Rightarrow> int \<Rightarrow> int \<Rightarrow> int \<Rightarrow> error + pyobject" where
  "get_indexes h py_start py_length py_maxsize =
     (case parse_III py_start py_length py_maxsize of
        Inl e \<Rightarrow> Inl e
      | Inr (start, length', maxsize) \<Rightarrow>
          if length' <s 0 then Inl (ValueError msg_length)
          else
            let end' = start + length' in
            if end' \<le>s maxsize then Inr (Slice (sint start) (sint end') 1)
            else if \<not> grants h (nat (sint length')) then Inl (ValueError msg_create)
            else
              (case fill_data start length' maxsize 0 (map (junk h) [0 ..< nat (sint length')]) of
                 Inl e \<Rightarrow> Inl e
               | Inr data \<Rightarrow> Inr (NDArray data)))"

subsection \<open>\<open>src/np_rw_buffer/_circular_indexes.c\<close>\<close>

text \<open>
  \<open>PyArg_ParseTuple(args, "iii", &start, &length, &maxsize)\<close>: format \<open>i\<close> checks
  that the Python integer fits a C \<open>int\<close> and stores an \<open>int\<close>. The targets here
  are \<open>long long\<close> variables without initialiser, so the store replaces four of
  their eight bytes (the low half on a little-endian machine) and the other half
  keeps what the stack held. That prior content is the first argument.
\<close>

definition store_int :: "c_llong \<Rightarrow> c_int \<Rightarrow> c_llong" where
  "store_int var v = (var AND NOT (mask 32)) OR ucast v"

definition fits_int :: "int \<Rightarrow> bool" where
  "fits_int k = (- (2 ^ 31) \<le> k \<and> k < 2 ^ 31)"

definition parse_iii ::
  "c_llong \<times> c_llong \<times> c_llong \<Rightarrow> int \<Rightarrow> int \<Rightarrow> int \<Rightarrow> error + (c_llong \<times> c_llong \<times> c_llong)" where
  "parse_iii stack py_start py_length py_maxsize =
     (case stack of (start0, length0, maxsize0) \<Rightarrow>
        if fits_int py_start \<and> fits_int py_length \<and> fits_int py_maxsize
        then Inr (store_int start0 (word_of_int py_start),
                  store_int length0 (word_of_int py_length),
                  store_int maxsize0 (word_of_int py_maxsize))
        else Inl OverflowError)"

text \<open>
  The loop
  \<open>for(i=0; i < length; i++) PyTuple_SetItem(result, i, PyLong_FromLongLong((start % maxsize) + i));\<close>
\<close>

function set_items :: "c_llong \<Rightarrow> c_llong \<Rightarrow> c_llong \<Rightarrow> c_llong \<Rightarrow> int list \<Rightarrow> error + int list" where
  "set_items start length' maxsize i result =
     (if i <s length' then
        (if rem_undefined start maxsize then Inl ArithmeticFault
         else set_items start length' maxsize (i + 1)
                (result[nat (sint i) := sint (c_rem start maxsize + i)]))
      else Inr result)"
  by pat_completeness auto
termination
proof (relation "measure (\<lambda>(start, length', maxsize, i, result). nat (sint length' - sint i))")
  show "wf (measure (\<lambda>(start, length', maxsize, i, result). nat (sint length' - sint i)))"
    by simp
next
  fix start length' maxsize i :: c_llong and result :: "int list"
  assume "i <s length'"
  then have lt: "sint i < sint length'"
    by (simp add: word_sless_alt)
  have "sint length' < 2 ^ (LENGTH(64) - 1)"
    by (rule sint_lt)
  with lt have up: "sint i + 1 < 2 ^ (LENGTH(64) - 1)"
    by linarith
  have lo: "- (2 ^ (LENGTH(64) - 1)) \<le> sint i + 1"
    using sint_ge [of i] by linarith
  have "sint (i + 1) = signed_take_bit (LENGTH(64) - 1) (sint i + sint (1 :: c_llong))"
    by (rule sint_word_add)
  also have "\<dots> = sint i + 1"
    using lo up by (simp add: signed_take_bit_int_eq_self)
  finally have "sint (i + 1) = sint i + 1" .
  with lt show "((start, length', maxsize, i + 1, result[nat (sint i) := sint (c_rem start maxsize + i)]),
                 (start, length', maxsize, i, result))
                \<in> measure (\<lambda>(start, length', maxsize, i, result). nat (sint length' - sint i))"
    by simp
qed

declare set_items.simps [simp del]

text \<open>
  The function from \<open>PyTuple_New(length)\<close> on, over the values the three variables
  hold after parsing. \<open>PyTuple_New\<close> refuses a negative size and fails unless the
  heap grants \<open>length\<close> slots; its empty slots are written as \<open>0\<close> until the loop
  sets them. The boxed integers are taken to be available, so no error is pending
  at \<open>PyErr_Occurred()\<close> and the tuple is returned.
\<close>

definition get_indexes_vars :: "heap \<Rightarrow> c_llong \<Rightarrow> c_llong \<Rightarrow> c_llong \<Rightarrow> error + pyobject" where
  "get_indexes_vars h start length' maxsize =
     (if length' <s 0 then Inl SystemError
      else if \<not> grants h (nat (sint length')) then Inl MemoryError
      else
        (case set_items start length' maxsize 0 (replicate (nat (sint length')) 0) of
           Inl e \<Rightarrow> Inl e
         | Inr result \<Rightarrow> Inr (Tuple result)))"

definition get_indexes_tuple ::
  "heap \<Rightarrow> c_llong \<times> c_llong \<times> c_llong \<Rightarrow> int \<Rightarrow> int \<Rightarrow> int \<Rightarrow> error + pyobject" where
  "get_indexes_tuple h stack py_start py_length py_maxsize =
     (case parse_iii stack py_start py_length py_maxsize of
        Inl e \<Rightarrow> Inl e
      | Inr (start, length', maxsize) \<Rightarrow> get_indexes_vars h start length' maxsize)"

subsection \<open>What an output denotes\<close>

text \<open>
  The physical positions an output stands for, in order: a slice
  \<open>(begin, end, step)\<close> stands for \<open>begin, begin + step, \<dots>\<close> below \<open>end\<close>, an
  array or a tuple for its elements.
\<close>

fun positions :: "pyobject \<Rightarrow> int list" where
  "positions (Slice b e s) =
     (if 0 < s then map (\<lambda>k. b + int k * s) [0 ..< nat ((e - b + s - 1) div s)] else [])"
| "positions (NDArray data) = map sint data"
| "positions (Tuple items) = items"

text \<open>
  The sequence the specification asks for: \<open>(start + i) mod capacity\<close> for \<open>i\<close> in
  \<open>[0, length)\<close>, over the integers.
\<close>

definition window :: "int \<Rightarrow> int \<Rightarrow> int \<Rightarrow> int list" where
  "window start length' capacity = map (\<lambda>i. (start + int i) mod capacity) [0 ..< nat length']"

text \<open>A 32-bit pattern read as signed: \<open>k\<close> modulo \<open>2^32\<close>, moved into \<open>[-2^31, 2^31)\<close>.\<close>

definition wrap32 :: "int \<Rightarrow> int" where
  "wrap32 k = (k + 2 ^ 31) mod 2 ^ 32 - 2 ^ 31"

fun is_slice :: "error + pyobject \<Rightarrow> bool" where
  "is_slice (Inr (Slice b e s)) = True"
| "is_slice r = False"

text \<open>
  Three heaps: one that grants every request and hands out zeroed memory, one that
  grants every request and hands out memory full of \<open>-1\<close>, one that grants nothing.
\<close>

definition plenty :: heap where
  "plenty = \<lparr>grants = (\<lambda>n. True), junk = (\<lambda>k. 0)\<rparr>"


definition exhausted :: heap where
  "exhausted = \<lparr>grants = (\<lambda>n. False), junk = (\<lambda>k. 0)\<rparr>"

section \<open>Reading words as integers\<close>

lemma sint_of_int_32:
  assumes "- (2 ^ 31) \<le> k" "k < 2 ^ 31"
  shows "sint (word_of_int k :: c_int) = k"
  using assms by (simp add: sint_sbintrunc' signed_take_bit_int_eq_self)

lemma sint_of_int_64:
  assumes "- (2 ^ 63) \<le> k" "k < 2 ^ 63"
  shows "sint (word_of_int k :: c_llong) = k"
  using assms by (simp add: sint_sbintrunc' signed_take_bit_int_eq_self)

lemma sint_next_32:
  fixes i n :: c_int
  assumes "i <s n"
  shows "sint (i + 1) = sint i + 1"
proof -
  have lt: "sint i < sint n"
    using assms by (simp add: word_sless_alt)
  have "sint n < 2 ^ (LENGTH(32) - 1)"
    by (rule sint_lt)
  with lt have up: "sint i + 1 < 2 ^ 31"
    by simp
  have lo: "- (2 ^ 31) \<le> sint i + 1"
    using sint_ge [of i] by simp
  have "sint (i + 1) = signed_take_bit (LENGTH(32) - 1) (sint i + sint (1 :: c_int))"
    by (rule sint_word_add)
  also have "\<dots> = sint i + 1"
    using lo up by (simp add: signed_take_bit_int_eq_self)
  finally show ?thesis .
qed

lemma sint_next_64:
  fixes i n :: c_llong
  assumes "i <s n"
  shows "sint (i + 1) = sint i + 1"
proof -
  have lt: "sint i < sint n"
    using assms by (simp add: word_sless_alt)
  have "sint n < 2 ^ (LENGTH(64) - 1)"
    by (rule sint_lt)
  with lt have up: "sint i + 1 < 2 ^ 63"
    by simp
  have lo: "- (2 ^ 63) \<le> sint i + 1"
    using sint_ge [of i] by simp
  have "sint (i + 1) = signed_take_bit (LENGTH(64) - 1) (sint i + sint (1 :: c_llong))"
    by (rule sint_word_add)
  also have "\<dots> = sint i + 1"
    using lo up by (simp add: signed_take_bit_int_eq_self)
  finally show ?thesis .
qed

lemma smod_nonneg:
  fixes a b :: int
  assumes "0 \<le> a" "0 < b"
  shows "a smod b = a mod b"
  using assms by (simp add: signed_modulo_int_def sgn_if)

lemma smod_between:
  fixes a b :: int
  shows "min a 0 \<le> a smod b \<and> a smod b \<le> max a 0"
proof (cases "0 \<le> a")
  case True
  have "\<bar>a\<bar> mod \<bar>b\<bar> \<le> \<bar>a\<bar>"
    by (rule zmod_le_nonneg_dividend) simp
  moreover have "0 \<le> \<bar>a\<bar> mod \<bar>b\<bar>"
    by (cases "b = 0") simp_all
  ultimately show ?thesis
    using True by (cases "a = 0") (simp_all add: signed_modulo_int_def)
next
  case False
  have "\<bar>a\<bar> mod \<bar>b\<bar> \<le> \<bar>a\<bar>"
    by (rule zmod_le_nonneg_dividend) simp
  moreover have "0 \<le> \<bar>a\<bar> mod \<bar>b\<bar>"
    by (cases "b = 0") simp_all
  ultimately show ?thesis
    using False by (simp add: signed_modulo_int_def)
qed

lemma smod_nonneg_bounds:
  fixes a b :: int
  assumes "0 \<le> a" "b \<noteq> 0"
  shows "0 \<le> a smod b \<and> a smod b \<le> a \<and> a smod b < \<bar>b\<bar>"
proof -
  have "a smod b = a mod \<bar>b\<bar>"
    using assms by (cases "a = 0") (simp_all add: signed_modulo_int_def)
  moreover have "0 \<le> a mod \<bar>b\<bar>" "a mod \<bar>b\<bar> < \<bar>b\<bar>"
    using assms by simp_all
  moreover have "a mod \<bar>b\<bar> \<le> a"
    using assms by (intro zmod_le_nonneg_dividend)
  ultimately show ?thesis
    by simp
qed

lemma sint_c_rem_32:
  fixes a b :: c_int
  shows "sint (c_rem a b) = sint a smod sint b"
proof -
  have "min (sint a) 0 \<le> sint a smod sint b \<and> sint a smod sint b \<le> max (sint a) 0"
    by (rule smod_between)
  moreover have "- (2 ^ 31) \<le> sint a" "sint a < 2 ^ 31"
    using sint_ge [of a] sint_lt [of a] by simp_all
  ultimately have "- (2 ^ 31) \<le> sint a smod sint b" "sint a smod sint b < 2 ^ 31"
    by (simp_all add: min_def max_def split: if_splits)
  then show ?thesis
    unfolding c_rem_def by (rule sint_of_int_32)
qed

lemma sint_c_rem_64:
  fixes a b :: c_llong
  shows "sint (c_rem a b) = sint a smod sint b"
proof -
  have "min (sint a) 0 \<le> sint a smod sint b \<and> sint a smod sint b \<le> max (sint a) 0"
    by (rule smod_between)
  moreover have "- (2 ^ 63) \<le> sint a" "sint a < 2 ^ 63"
    using sint_ge [of a] sint_lt [of a] by simp_all
  ultimately have "- (2 ^ 63) \<le> sint a smod sint b" "sint a smod sint b < 2 ^ 63"
    by (simp_all add: min_def max_def split: if_splits)
  then show ?thesis
    unfolding c_rem_def by (rule sint_of_int_64)
qed

text \<open>The signed reading of a 32-bit pattern is \<open>wrap32\<close>.\<close>

lemma sint_wrap32: "sint (word_of_int k :: c_int) = wrap32 k"
  by (simp add: int_word_sint wrap32_def)

lemma word_of_int_mod32: "(word_of_int (k mod 2 ^ 32) :: c_int) = word_of_int k"
  by (simp add: word_of_int_eq_iff take_bit_eq_mod)

lemma wrap32_id:
  assumes "- (2 ^ 31) \<le> k" "k < 2 ^ 31"
  shows "wrap32 k = k"
  using assms by (simp add: wrap32_def)

lemma wrap32_le:
  assumes "0 \<le> k"
  shows "wrap32 k \<le> k"
proof -
  have "(k + 2 ^ 31) mod 2 ^ 32 \<le> k + 2 ^ 31"
    using assms by (intro zmod_le_nonneg_dividend) simp
  then show ?thesis
    by (simp add: wrap32_def)
qed

lemma wrap32_negative:
  assumes "0 \<le> k" "wrap32 k < 0"
  shows "2 ^ 31 \<le> k"
proof (rule ccontr)
  assume "\<not> 2 ^ 31 \<le> k"
  with assms(1) have "wrap32 k = k"
    by (intro wrap32_id) simp_all
  with assms show False
    by simp
qed

lemma msg_distinct: "msg_create \<noteq> msg_length"
  by (simp add: msg_create_def msg_length_def)

section \<open>The array loop\<close>

text \<open>
  With a divisor other than \<open>0\<close> and \<open>-1\<close> the loop runs to the end and leaves
  \<open>(start + k) % maxsize\<close> in every slot from \<open>i\<close> on.
\<close>

lemma fill_data_run:
  "maxsize \<noteq> 0 \<Longrightarrow> maxsize \<noteq> - 1 \<Longrightarrow> 0 \<le> sint i \<Longrightarrow> sint i \<le> sint length' \<Longrightarrow>
   length data = nat (sint length') \<Longrightarrow>
    fill_data start length' maxsize i data =
      Inr (take (nat (sint i)) data @
           map (\<lambda>k. c_rem (start + word_of_nat k) maxsize) [nat (sint i) ..< nat (sint length')])"
proof (induction start length' maxsize i data rule: fill_data.induct)
  case (1 start length' maxsize i data)
  show ?case
  proof (cases "i <s length'")
    case True
    then have lt: "sint i < sint length'"
      by (simp add: word_sless_alt)
    have nx: "sint (i + 1) = sint i + 1"
      using True by (rule sint_next_32)
    have def: "\<not> rem_undefined (start + i) maxsize"
      using "1.prems" by (simp add: rem_undefined_def)
    let ?v = "c_rem (start + i) maxsize"
    let ?n = "nat (sint i)"
    have n_lt: "?n < length data"
      using lt "1.prems" by simp
    have ih: "fill_data start length' maxsize (i + 1) (data[?n := ?v]) =
      Inr (take (nat (sint (i + 1))) (data[?n := ?v]) @
           map (\<lambda>k. c_rem (start + word_of_nat k) maxsize) [nat (sint (i + 1)) ..< nat (sint length')])"
      using "1.IH" [OF True def] "1.prems" lt nx by simp
    have suc: "nat (sint (i + 1)) = Suc ?n"
      using nx "1.prems" by simp
    have tk: "take (Suc ?n) (data[?n := ?v]) = take ?n data @ [?v]"
      using n_lt by (simp add: take_Suc_conv_app_nth)
    have up: "[?n ..< nat (sint length')] = ?n # [Suc ?n ..< nat (sint length')]"
      using lt "1.prems" by (simp add: upt_conv_Cons)
    have wi: "word_of_nat ?n = i"
      using "1.prems" by simp
    have "fill_data start length' maxsize i data =
            fill_data start length' maxsize (i + 1) (data[?n := ?v])"
      using True def by (subst fill_data.simps) simp
    then show ?thesis
      by (simp only: ih suc tk up wi list.map append_assoc append.simps)
  next
    case False
    then have "sint i = sint length'"
      using "1.prems" by (simp add: word_sless_alt)
    then show ?thesis
      using False "1.prems" by (subst fill_data.simps) simp
  qed
qed

text \<open>
  Whenever the loop ends without a fault it has written every slot from \<open>i\<close> on,
  and it has divided only by a divisor other than \<open>0\<close>.
\<close>

lemma fill_data_written:
  "fill_data start length' maxsize i data = Inr data' \<Longrightarrow> 0 \<le> sint i \<Longrightarrow>
   sint i \<le> sint length' \<Longrightarrow> length data = nat (sint length') \<Longrightarrow>
   data' = take (nat (sint i)) data @
     map (\<lambda>k. c_rem (start + word_of_nat k) maxsize) [nat (sint i) ..< nat (sint length')] \<and>
   (sint i < sint length' \<longrightarrow> maxsize \<noteq> 0)"
proof (induction start length' maxsize i data rule: fill_data.induct)
  case (1 start length' maxsize i data)
  show ?case
  proof (cases "i <s length'")
    case True
    then have lt: "sint i < sint length'"
      by (simp add: word_sless_alt)
    have nx: "sint (i + 1) = sint i + 1"
      using True by (rule sint_next_32)
    let ?v = "c_rem (start + i) maxsize"
    let ?n = "nat (sint i)"
    let ?f = "\<lambda>k. c_rem (start + word_of_nat k) maxsize"
    have def: "\<not> rem_undefined (start + i) maxsize"
      using "1.prems"(1) True by (subst (asm) fill_data.simps) (auto split: if_splits)
    then have nz: "maxsize \<noteq> 0"
      by (simp add: rem_undefined_def)
    have step: "fill_data start length' maxsize (i + 1) (data[?n := ?v]) = Inr data'"
      using "1.prems"(1) True def by (subst (asm) fill_data.simps) simp
    have suc: "nat (sint (i + 1)) = Suc ?n"
      using nx "1.prems" by simp
    have n_lt: "?n < length data"
      using lt "1.prems" by simp
    have ih: "data' = take (nat (sint (i + 1))) (data[?n := ?v]) @
                map ?f [nat (sint (i + 1)) ..< nat (sint length')]"
      using "1.IH" [OF True def step] "1.prems" lt nx by simp
    have tk: "take (Suc ?n) (data[?n := ?v]) = take ?n data @ [?v]"
      using n_lt by (simp add: take_Suc_conv_app_nth)
    have up: "[?n ..< nat (sint length')] = ?n # [Suc ?n ..< nat (sint length')]"
      using lt "1.prems" by (simp add: upt_conv_Cons)
    have wi: "word_of_nat ?n = i"
      using "1.prems" by simp
    have "data' = take ?n data @ map ?f [?n ..< nat (sint length')]"
      by (subst ih) (simp only: suc tk up wi list.map append_assoc append.simps)
    with nz show ?thesis
      by simp
  next
    case False
    then have "sint i = sint length'"
      using "1.prems" by (simp add: word_sless_alt)
    moreover have "data' = data"
      using "1.prems"(1) False by (subst (asm) fill_data.simps) simp
    ultimately show ?thesis
      using "1.prems" by simp
  qed
qed

text \<open>The only error of the loop is the fault of \<open>%\<close>.\<close>

lemma fill_data_error:
  "fill_data start length' maxsize i data = Inl e \<Longrightarrow> e = ArithmeticFault"
proof (induction start length' maxsize i data rule: fill_data.induct)
  case (1 start length' maxsize i data)
  from "1.prems" show ?case
    by (subst (asm) fill_data.simps) (auto split: if_splits dest: "1.IH")
qed


lemma c_rem_in_range:
  assumes "0 \<le> s" "int k < l" "s + l < 2 ^ 31" "0 < m" "m < 2 ^ 31"
  shows "c_rem (word_of_int s + word_of_nat k) (word_of_int m :: c_int) = word_of_int ((s + int k) mod m)"
proof -
  have "word_of_int s + word_of_nat k = (word_of_int (s + int k) :: c_int)"
    by simp
  moreover have "sint (word_of_int (s + int k) :: c_int) = s + int k"
    using assms by (intro sint_of_int_32) simp_all
  moreover have "sint (word_of_int m :: c_int) = m"
    using assms by (intro sint_of_int_32) simp_all
  ultimately show ?thesis
    using assms by (simp add: c_rem_def smod_nonneg)
qed

text \<open>
  The whole function on arguments that the three \<open>int\<close> variables hold without
  wrap-around.
\<close>

lemma get_indexes_in_range:
  assumes s: "0 \<le> s" and l: "0 \<le> l" and sl: "s + l < 2 ^ 31" and m: "0 < m" "m < 2 ^ 31"
  shows "get_indexes h s l m =
    (if s + l \<le> m then Inr (Slice s (s + l) 1)
     else if \<not> grants h (nat l) then Inl (ValueError msg_create)
     else Inr (NDArray (map (\<lambda>k. word_of_int ((s + int k) mod m)) [0 ..< nat l])))"
proof -
  let ?start = "word_of_int s :: c_int"
  let ?len = "word_of_int l :: c_int"
  let ?max = "word_of_int m :: c_int"
  have ss: "sint ?start = s"
    using s l sl by (intro sint_of_int_32) simp_all
  have sl': "sint ?len = l"
    using s l sl by (intro sint_of_int_32) simp_all
  have sm: "sint ?max = m"
    using m by (intro sint_of_int_32) simp_all
  have "?start + ?len = word_of_int (s + l)"
    by simp
  then have se: "sint (?start + ?len) = s + l"
    using s l sl by (simp only: sint_of_int_32)
  have neg: "\<not> ?len <s 0"
    using l sl' by (simp add: word_sless_alt)
  have test: "?start + ?len \<le>s ?max \<longleftrightarrow> s + l \<le> m"
    by (simp only: word_sle_eq se sm)
  have m0: "?max \<noteq> 0"
    using sm m by auto
  have m1: "?max \<noteq> - 1"
    using sm m by auto
  have "fill_data ?start ?len ?max 0 (map (junk h) [0 ..< nat (sint ?len)]) =
      Inr (take (nat (sint (0 :: c_int))) (map (junk h) [0 ..< nat (sint ?len)]) @
           map (\<lambda>k. c_rem (?start + word_of_nat k) ?max) [nat (sint (0 :: c_int)) ..< nat (sint ?len)])"
    using l sl' by (intro fill_data_run [OF m0 m1]) simp_all
  also have "\<dots> = Inr (map (\<lambda>k. c_rem (?start + word_of_nat k) ?max) [0 ..< nat l])"
    by (simp add: sl')
  also have "map (\<lambda>k. c_rem (?start + word_of_nat k) ?max) [0 ..< nat l] =
             map (\<lambda>k. word_of_int ((s + int k) mod m)) [0 ..< nat l]"
  proof (rule map_cong [OF refl])
    fix k assume "k \<in> set [0 ..< nat l]"
    then have "int k < l" by auto
    then show "c_rem (?start + word_of_nat k) ?max = word_of_int ((s + int k) mod m)"
      using s sl m by (intro c_rem_in_range)
  qed
  finally have fill: "fill_data ?start ?len ?max 0 (map (junk h) [0 ..< nat (sint ?len)]) =
      Inr (map (\<lambda>k. word_of_int ((s + int k) mod m)) [0 ..< nat l])" .
  from fill have fill': "fill_data ?start ?len ?max 0 (map (junk h) [0 ..< nat l]) =
      Inr (map (\<lambda>k. word_of_int ((s + int k) mod m)) [0 ..< nat l])"
    by (simp only: sl')
  show ?thesis
    unfolding get_indexes_def parse_III_def
    by (simp add: neg test fill' ss se sl' Let_def del: of_int_add)
qed

text \<open>The whole function in terms of the wrapped values, for all Python integers.\<close>

lemma get_indexes_cases:
  "get_indexes h start length' maxsize =
     (if wrap32 length' < 0 then Inl (ValueError msg_length)
      else if wrap32 (start + length') \<le> wrap32 maxsize
        then Inr (Slice (wrap32 start) (wrap32 (start + length')) 1)
      else if \<not> grants h (nat (wrap32 length')) then Inl (ValueError msg_create)
      else (case fill_data (word_of_int start) (word_of_int length') (word_of_int maxsize) 0
                   (map (junk h) [0 ..< nat (wrap32 length')]) of
              Inl e \<Rightarrow> Inl e
            | Inr data \<Rightarrow> Inr (NDArray data)))"
proof -
  have "word_of_int start + word_of_int length' = (word_of_int (start + length') :: c_int)"
    by simp
  then have "sint (word_of_int start + word_of_int length' :: c_int) = wrap32 (start + length')"
    by (simp only: sint_wrap32)
  then show ?thesis
    unfolding get_indexes_def parse_III_def
    by (simp add: word_sless_alt word_sle_eq sint_wrap32 Let_def del: of_int_add)
qed

lemma sint_array_in_range:
  assumes "0 < m" "m < 2 ^ 31"
  shows "map sint (map (\<lambda>k. word_of_int ((s + int k) mod m) :: c_int) [0 ..< n]) =
         map (\<lambda>k. (s + int k) mod m) [0 ..< n]"
proof -
  have "sint (word_of_int ((s + int k) mod m) :: c_int) = (s + int k) mod m" for k
  proof (rule sint_of_int_32)
    have "0 \<le> (s + int k) mod m"
      using assms by simp
    moreover have "- (2 ^ 31) \<le> (0::int)"
      by simp
    ultimately show "- (2 ^ 31) \<le> (s + int k) mod m"
      by (rule order_trans [rotated])
    have "(s + int k) mod m < m"
      using assms by simp
    then show "(s + int k) mod m < 2 ^ 31"
      using assms by linarith
  qed
  then show ?thesis
    by simp
qed

section \<open>The claims about \<open>src/src/circular_indexes.c\<close>\<close>

text \<open>
  In what follows \<open>start\<close>, \<open>length'\<close> and \<open>capacity\<close> are the Python integers
  passed as \<open>start\<close>, \<open>length\<close> and \<open>maxsize\<close>. The bounds
  \<open>start + length' < 2^31\<close> and \<open>capacity < 2^31\<close>, where they are assumed, say
  that the three \<open>int\<close> variables and their sum \<open>end\<close> hold these integers as they
  are.
\<close>

text \<open>
  C1. The function does not reduce \<open>start\<close> modulo the capacity before its test.
  For \<open>0 \<le> start\<close>, \<open>0 \<le> length\<close>, \<open>start + length < 2^31\<close> and
  \<open>0 < capacity < 2^31\<close> it returns the slice \<open>(start, start + length, 1)\<close> exactly
  when \<open>start + length \<le> capacity\<close>, and no slice otherwise: an array, when one
  can be allocated. Where it returns the slice, \<open>start\<close> is its own residue modulo
  the capacity, except for \<open>start = capacity\<close> with \<open>length = 0\<close>.
\<close>

theorem C1_slice_iff_unreduced_fit:
  assumes "0 \<le> start" and "0 \<le> length'" and "start + length' < 2 ^ 31"
    and "0 < capacity" and "capacity < 2 ^ 31"
  shows "(get_indexes h start length' capacity = Inr (Slice start (start + length') 1))
           = (start + length' \<le> capacity) \<and>
         is_slice (get_indexes h start length' capacity) = (start + length' \<le> capacity) \<and>
         (start + length' \<le> capacity \<longrightarrow>
            start mod capacity = start \<or> (start = capacity \<and> length' = 0)) \<and>
         (capacity < start + length' \<and> grants h (nat length') \<longrightarrow>
            (\<exists>data. get_indexes h start length' capacity = Inr (NDArray data)))"
proof -
  have eq: "get_indexes h start length' capacity =
    (if start + length' \<le> capacity then Inr (Slice start (start + length') 1)
     else if \<not> grants h (nat length') then Inl (ValueError msg_create)
     else Inr (NDArray (map (\<lambda>k. word_of_int ((start + int k) mod capacity)) [0 ..< nat length'])))"
    using assms by (rule get_indexes_in_range)
  have "start + length' \<le> capacity \<longrightarrow>
          start mod capacity = start \<or> (start = capacity \<and> length' = 0)"
    using assms by (cases "start < capacity") auto
  then show ?thesis
    unfolding eq by auto
qed

text \<open>The hypotheses hold at \<open>(2, 3, 10)\<close> and at \<open>(12, 3, 10)\<close>.\<close>

theorem C1_witness:
  "get_indexes plenty 2 3 10 = Inr (Slice 2 5 1) \<and> is_slice (get_indexes plenty 2 3 10) \<and>
   \<not> is_slice (get_indexes plenty 12 3 10)"
  using C1_slice_iff_unreduced_fit [of 2 3 10 plenty]
    C1_slice_iff_unreduced_fit [of 12 3 10 plenty]
  by simp

text \<open>
  At \<open>(12, 3, 10)\<close> the reduced start \<open>2\<close> gives \<open>2 + 3 \<le> 10\<close>, and the function
  returns the array \<open>[2, 3, 4]\<close>, not the slice \<open>(2, 5, 1)\<close>.
\<close>

theorem C1_counterexample:
  "(0::int) \<le> 12 \<and> (0::int) \<le> 3 \<and> (0::int) < 10 \<and> (12::int) mod 10 + 3 \<le> 10 \<and>
   get_indexes plenty 12 3 10 = Inr (NDArray [2, 3, 4]) \<and>
   get_indexes plenty 12 3 10 \<noteq> Inr (Slice (12 mod 10) (12 mod 10 + 3) 1)"
proof -
  have "get_indexes plenty 12 3 10 = Inr (NDArray [2, 3, 4])"
    by code_simp
  then show ?thesis
    by simp
qed

text \<open>
  C2. For \<open>0 \<le> start\<close>, \<open>0 \<le> length\<close>, \<open>start + length < 2^31\<close> and
  \<open>0 < capacity\<close>, when the window wraps
  (\<open>start mod capacity + length > capacity\<close>) and the array can be allocated, the
  function returns an array of exactly \<open>length\<close> elements whose \<open>i\<close>-th element is
  \<open>(start mod capacity + i) mod capacity\<close>.
\<close>

theorem C2_wrapping_window:
  assumes "0 \<le> start" and "0 \<le> length'" and "start + length' < 2 ^ 31"
    and "0 < capacity"
    and wraps: "start mod capacity + length' > capacity"
    and "grants h (nat length')"
  shows "\<exists>data. get_indexes h start length' capacity = Inr (NDArray data) \<and>
           int (length data) = length' \<and>
           map sint data = map (\<lambda>i. (start mod capacity + int i) mod capacity) [0 ..< nat length']"
proof -
  have "start mod capacity \<le> start"
    using assms by (simp add: zmod_le_nonneg_dividend)
  with wraps have gt: "\<not> start + length' \<le> capacity"
    by linarith
  with assms have small: "capacity < 2 ^ 31"
    by linarith
  let ?data = "map (\<lambda>k. word_of_int ((start + int k) mod capacity) :: c_int) [0 ..< nat length']"
  have "get_indexes h start length' capacity = Inr (NDArray ?data)"
    using assms gt small by (simp add: get_indexes_in_range)
  moreover have "int (length ?data) = length'"
    using assms by simp
  moreover have "map sint ?data = map (\<lambda>i. (start mod capacity + int i) mod capacity) [0 ..< nat length']"
    using assms small by (simp only: sint_array_in_range mod_add_left_eq)
  ultimately show ?thesis
    by blast
qed

text \<open>The call \<open>(8, 5, 10)\<close> wraps and yields \<open>[8, 9, 0, 1, 2]\<close>.\<close>

theorem C2_witness:
  "get_indexes plenty 8 5 10 = Inr (NDArray [8, 9, 0, 1, 2]) \<and>
   (\<exists>data. get_indexes plenty 8 5 10 = Inr (NDArray data) \<and> int (length data) = 5 \<and>
      map sint data = map (\<lambda>i. (8 mod 10 + int i) mod 10) [0 ..< nat 5])"
proof -
  have "get_indexes plenty 8 5 10 = Inr (NDArray [8, 9, 0, 1, 2])"
    by code_simp
  moreover have "\<exists>data. get_indexes plenty 8 5 10 = Inr (NDArray data) \<and> int (length data) = 5 \<and>
      map sint data = map (\<lambda>i. (8 mod 10 + int i) mod 10) [0 ..< nat 5]"
    using C2_wrapping_window [of 8 5 10 plenty] by (simp add: plenty_def)
  ultimately show ?thesis
    by blast
qed

text \<open>
  Without the bound the statement fails: the length \<open>2^31\<close> is read by the \<open>int\<close>
  variable as \<open>-2^31\<close> and the call is refused.
\<close>

theorem C2_counterexample:
  "(0::int) \<le> 8 \<and> (0::int) \<le> 2147483648 \<and> (0::int) < 10 \<and> (8::int) mod 10 + 2147483648 > 10 \<and>
   get_indexes plenty 8 2147483648 10 = Inl (ValueError msg_length)"
proof -
  have "get_indexes plenty 8 2147483648 10 = Inl (ValueError msg_length)"
    by code_simp
  then show ?thesis
    by simp
qed

text \<open>
  C3. For \<open>0 \<le> start\<close>, \<open>0 \<le> length\<close>, \<open>start + length < 2^31\<close> and
  \<open>0 < capacity < 2^31\<close>, when the array can be allocated, the function returns an
  output, and the positions it denotes, slice or array, are \<open>(start + i) mod capacity\<close>
  for \<open>i\<close> in \<open>[0, length)\<close>, in this order.
\<close>

theorem C3_positions_are_the_window:
  assumes "0 \<le> start" and "0 \<le> length'" and "start + length' < 2 ^ 31"
    and "0 < capacity" and "capacity < 2 ^ 31"
    and "grants h (nat length')"
  shows "\<exists>out. get_indexes h start length' capacity = Inr out \<and>
           positions out = window start length' capacity"
proof (cases "start + length' \<le> capacity")
  case True
  then have out: "get_indexes h start length' capacity = Inr (Slice start (start + length') 1)"
    using assms by (simp add: get_indexes_in_range)
  have "(start + int k) mod capacity = start + int k" if "k \<in> set [0 ..< nat length']" for k
  proof -
    from that have "int k < length'"
      by auto
    with True assms show ?thesis
      by simp
  qed
  then have "map (\<lambda>k. start + int k) [0 ..< nat length'] = window start length' capacity"
    unfolding window_def by (intro map_cong [OF refl]) simp
  then have "positions (Slice start (start + length') 1) = window start length' capacity"
    by simp
  with out show ?thesis
    by blast
next
  case False
  let ?data = "map (\<lambda>k. word_of_int ((start + int k) mod capacity) :: c_int) [0 ..< nat length']"
  have out: "get_indexes h start length' capacity = Inr (NDArray ?data)"
    using assms False by (simp add: get_indexes_in_range)
  have "positions (NDArray ?data) = window start length' capacity"
    using assms unfolding window_def positions.simps by (simp only: sint_array_in_range)
  with out show ?thesis
    by blast
qed

text \<open>The slice of \<open>(2, 3, 10)\<close> and the array of \<open>(0, 23, 10)\<close>.\<close>

theorem C3_witness:
  "positions (Slice 2 5 1) = window 2 3 10 \<and>
   (\<exists>out. get_indexes plenty 0 23 10 = Inr out \<and> positions out = window 0 23 10)"
proof -
  have "\<exists>out. get_indexes plenty 2 3 10 = Inr out \<and> positions out = window 2 3 10"
    using C3_positions_are_the_window [of 2 3 10 plenty] by (simp add: plenty_def)
  moreover have "get_indexes plenty 2 3 10 = Inr (Slice 2 5 1)"
    by code_simp
  ultimately have "positions (Slice 2 5 1) = window 2 3 10"
    by auto
  moreover have "\<exists>out. get_indexes plenty 0 23 10 = Inr out \<and> positions out = window 0 23 10"
    using C3_positions_are_the_window [of 0 23 10 plenty] by (simp add: plenty_def)
  ultimately show ?thesis
    by blast
qed

text \<open>
  Without the bound the statement fails: the capacity \<open>2^32 + 10\<close> is read as \<open>10\<close>,
  so the window \<open>8, 9, 10, 11, 12\<close> comes back as \<open>8, 9, 0, 1, 2\<close>.
\<close>

theorem C3_counterexample:
  "(0::int) \<le> 8 \<and> (0::int) \<le> 5 \<and> (0::int) < 4294967306 \<and>
   get_indexes plenty 8 5 4294967306 = Inr (NDArray [8, 9, 0, 1, 2]) \<and>
   positions (NDArray [8, 9, 0, 1, 2]) = [8, 9, 0, 1, 2] \<and>
   window 8 5 4294967306 = [8, 9, 10, 11, 12]"
proof -
  have "get_indexes plenty 8 5 4294967306 = Inr (NDArray [8, 9, 0, 1, 2])"
    by code_simp
  moreover have "positions (NDArray [8, 9, 0, 1, 2]) = [8, 9, 0, 1, 2]"
    by simp
  moreover have "window 8 5 4294967306 = [8, 9, 10, 11, 12]"
    by code_simp
  ultimately show ?thesis
    by simp
qed

text \<open>
  C4. The function fails with \<open>ValueError\<close> whenever \<open>-2^31 \<le> length < 0\<close>,
  whatever the start, the capacity and the heap are, so before any array is
  allocated, and then returns no output. No failure is stated for a capacity that
  is not positive: the function does not test it.
\<close>

theorem C4_negative_length_rejected:
  assumes "- (2 ^ 31) \<le> length'" and "length' < 0"
  shows "get_indexes h start length' capacity = Inl (ValueError msg_length) \<and>
         (\<nexists>out. get_indexes h start length' capacity = Inr out)"
proof -
  have "sint (word_of_int length' :: c_int) = length'"
    using assms by (intro sint_of_int_32) simp_all
  with assms have "(word_of_int length' :: c_int) <s 0"
    by (simp add: word_sless_alt)
  then have "get_indexes h start length' capacity = Inl (ValueError msg_length)"
    by (simp add: get_indexes_def parse_III_def)
  then show ?thesis
    by simp
qed

text \<open>The calls \<open>(0, -1, 10)\<close> and \<open>(7, -2^31, 0)\<close>, the latter on a heap that grants nothing.\<close>

theorem C4_witness:
  "get_indexes plenty 0 (- 1) 10 = Inl (ValueError msg_length) \<and>
   get_indexes exhausted 7 (- 2147483648) 0 = Inl (ValueError msg_length)"
  using C4_negative_length_rejected [of "- 1" plenty 0 10]
    C4_negative_length_rejected [of "- 2147483648" exhausted 7 0]
  by simp

text \<open>
  A capacity that is not positive is accepted: \<open>(0, 0, 0)\<close> returns the slice
  \<open>(0, 0, 1)\<close> and \<open>(0, 5, -3)\<close> returns the array \<open>[0, 1, 2, 0, 1]\<close>.
\<close>

theorem C4_counterexample:
  "(0::int) \<le> 0 \<and> (- 3 :: int) \<le> 0 \<and>
   get_indexes plenty 0 0 0 = Inr (Slice 0 0 1) \<and>
   get_indexes plenty 0 5 (- 3) = Inr (NDArray [0, 1, 2, 0, 1])"
proof -
  have "get_indexes plenty 0 0 0 = Inr (Slice 0 0 1)"
    by code_simp
  moreover have "get_indexes plenty 0 5 (- 3) = Inr (NDArray [0, 1, 2, 0, 1])"
    by code_simp
  ultimately show ?thesis
    by simp
qed

text \<open>
  C5. For \<open>0 \<le> start\<close>, \<open>0 \<le> length\<close>, \<open>start + length < 2^31\<close> and
  \<open>0 < capacity\<close>, a successful output is bounded: each array element lies
  in \<open>[0, capacity)\<close>; a slice has \<open>0 \<le> begin \<le> end \<le> capacity\<close> and step 1, and
  its begin equals the capacity only when \<open>length = 0\<close>. The function never returns
  a tuple.
\<close>

theorem C5_output_bounds:
  assumes s: "0 \<le> start" and l: "0 \<le> length'" and sl: "start + length' < 2 ^ 31"
    and c: "0 < capacity"
    and out: "get_indexes h start length' capacity = Inr out"
  shows "case out of
           Slice b e st \<Rightarrow> 0 \<le> b \<and> b \<le> capacity \<and> (b = capacity \<longrightarrow> length' = 0) \<and>
                            b \<le> e \<and> e \<le> capacity \<and> st = 1
         | NDArray data \<Rightarrow> \<forall>x \<in> set data. 0 \<le> sint x \<and> sint x < capacity
         | Tuple items \<Rightarrow> False"
proof -
  let ?m = "wrap32 capacity"
  let ?max = "word_of_int capacity :: c_int"
  let ?st = "word_of_int start :: c_int"
  let ?len = "word_of_int length' :: c_int"
  have ws: "wrap32 start = start"
    using s l sl by (intro wrap32_id) simp_all
  have wl: "wrap32 length' = length'"
    using s l sl by (intro wrap32_id) simp_all
  have we: "wrap32 (start + length') = start + length'"
    using s l sl by (intro wrap32_id) simp_all
  have mc: "?m \<le> capacity"
    using c by (intro wrap32_le) simp
  show ?thesis
  proof (cases "start + length' \<le> ?m")
    case True
    then have "get_indexes h start length' capacity = Inr (Slice start (start + length') 1)"
      using l by (simp add: get_indexes_cases ws wl we)
    with out have "out = Slice start (start + length') 1"
      by simp
    with True s l mc show ?thesis
      by auto
  next
    case False
    let ?run = "fill_data ?st ?len ?max 0 (map (junk h) [0 ..< nat length'])"
    have "get_indexes h start length' capacity =
            (if \<not> grants h (nat length') then Inl (ValueError msg_create)
             else case ?run of Inl e \<Rightarrow> Inl e | Inr data \<Rightarrow> Inr (NDArray data))"
      using l False by (simp add: get_indexes_cases ws wl we)
    with out obtain data where run: "?run = Inr data" and o: "out = NDArray data"
      by (auto split: if_splits sum.splits)
    have sl': "sint ?len = length'"
      using wl by (simp add: sint_wrap32)
    have sm: "sint ?max = ?m"
      by (rule sint_wrap32)
    from run have
      "data = take (nat (sint (0 :: c_int))) (map (junk h) [0 ..< nat length']) @
         map (\<lambda>k. c_rem (?st + word_of_nat k) ?max) [nat (sint (0 :: c_int)) ..< nat (sint ?len)] \<and>
       (sint (0 :: c_int) < sint ?len \<longrightarrow> ?max \<noteq> 0)"
      using l by (intro fill_data_written) (simp_all add: sl')
    then have data: "data = map (\<lambda>k. c_rem (?st + word_of_nat k) ?max) [0 ..< nat length']"
      and nz: "0 < length' \<longrightarrow> ?max \<noteq> 0"
      by (simp_all add: sl')
    have "0 \<le> sint x \<and> sint x < capacity" if "x \<in> set data" for x
    proof -
      from that data obtain k where k: "k < nat length'" and x: "x = c_rem (?st + word_of_nat k) ?max"
        by auto
      from k have kl: "int k < length'"
        by simp
      then have "?max \<noteq> 0"
        using nz by auto
      then have m0: "?m \<noteq> 0"
        using sm by (auto simp: signed_eq_0_iff)
      have "?st + word_of_nat k = (word_of_int (start + int k) :: c_int)"
        by simp
      moreover have "sint (word_of_int (start + int k) :: c_int) = start + int k"
        using s kl sl by (intro sint_of_int_32) simp_all
      ultimately have sx: "sint x = (start + int k) smod ?m"
        by (simp add: x sint_c_rem_32 sm)
      have b: "0 \<le> (start + int k) smod ?m \<and> (start + int k) smod ?m \<le> start + int k \<and>
               (start + int k) smod ?m < \<bar>?m\<bar>"
        using s m0 by (intro smod_nonneg_bounds) simp_all
      have "(start + int k) smod ?m < capacity"
      proof (cases "0 < ?m")
        case True
        with b mc show ?thesis
          by simp
      next
        case False
        with m0 have "?m < 0"
          by simp
        with c have "2 ^ 31 \<le> capacity"
          by (intro wrap32_negative) simp_all
        moreover have "start + int k < 2 ^ 31"
          using kl sl by simp
        ultimately show ?thesis
          using b by linarith
      qed
      with sx b show ?thesis
        by simp
    qed
    with o show ?thesis
      by simp
  qed
qed

text \<open>The array of \<open>(8, 5, 10)\<close> and the slice of \<open>(2, 3, 10)\<close>.\<close>

theorem C5_witness:
  "get_indexes plenty 8 5 10 = Inr (NDArray [8, 9, 0, 1, 2]) \<and>
   list_all (\<lambda>x. 0 \<le> sint x \<and> sint x < 10) [8, 9, 0, 1, 2 :: c_int] \<and>
   get_indexes plenty 2 3 10 = Inr (Slice 2 5 1) \<and>
   (0::int) \<le> 2 \<and> (2::int) \<le> 5 \<and> (5::int) \<le> 10"
proof -
  have arr: "get_indexes plenty 8 5 10 = Inr (NDArray [8, 9, 0, 1, 2])"
    by code_simp
  have sl: "get_indexes plenty 2 3 10 = Inr (Slice 2 5 1)"
    by code_simp
  show ?thesis
    using C5_output_bounds [of 8 5 10 plenty "NDArray [8, 9, 0, 1, 2]"]
      C5_output_bounds [of 2 3 10 plenty "Slice 2 5 1"] arr sl
    by simp
qed

text \<open>
  The begin of a slice can equal the capacity: \<open>(10, 0, 10)\<close> returns
  \<open>(10, 10, 1)\<close>.
\<close>

theorem C5_counterexample:
  "(0::int) < 10 \<and> (0::int) \<le> 0 \<and> (0::int) \<le> 10 \<and>
   get_indexes plenty 10 0 10 = Inr (Slice 10 10 1) \<and> \<not> (10::int) < 10"
proof -
  have "get_indexes plenty 10 0 10 = Inr (Slice 10 10 1)"
    by code_simp
  then show ?thesis
    by simp
qed

text \<open>
  C6. For \<open>0 \<le> start < 2^31\<close> and \<open>0 < capacity < 2^31\<close>, the function with
  \<open>length = 0\<close> returns the slice \<open>(start, start, 1)\<close> when \<open>start \<le> capacity\<close>,
  where \<open>start\<close> is its own residue if \<open>start < capacity\<close>; when
  \<open>start > capacity\<close> it returns an empty array if one can be allocated, and
  \<open>ValueError\<close> if not.
\<close>

theorem C6_zero_length:
  assumes "0 \<le> start" and "start < 2 ^ 31" and "0 < capacity" and "capacity < 2 ^ 31"
  shows "get_indexes h start 0 capacity =
           (if start \<le> capacity then Inr (Slice start start 1)
            else if grants h 0 then Inr (NDArray [])
            else Inl (ValueError msg_create)) \<and>
         (if start < capacity then start mod capacity = start else start mod capacity < start)"
proof -
  have "get_indexes h start 0 capacity =
           (if start \<le> capacity then Inr (Slice start start 1)
            else if grants h 0 then Inr (NDArray [])
            else Inl (ValueError msg_create))"
    using assms by (simp add: get_indexes_in_range)
  moreover have "start mod capacity < start" if "\<not> start < capacity"
  proof -
    have "start mod capacity < capacity"
      using assms by simp
    with that show ?thesis
      by linarith
  qed
  ultimately show ?thesis
    using assms by simp
qed

text \<open>The call \<open>(0, 0, 5)\<close> returns the slice \<open>(0, 0, 1)\<close>.\<close>

theorem C6_witness:
  "get_indexes plenty 0 0 5 = Inr (Slice 0 0 1) \<and> get_indexes plenty 12 0 10 = Inr (NDArray [])"
  using C6_zero_length [of 0 5 plenty] C6_zero_length [of 12 10 plenty]
  by (simp add: plenty_def)

text \<open>
  At \<open>(12, 0, 10)\<close> the function returns an empty array, not the slice
  \<open>(2, 2, 1)\<close>.
\<close>

theorem C6_counterexample:
  "(0::int) \<le> 12 \<and> (0::int) < 10 \<and>
   get_indexes plenty 12 0 10 = Inr (NDArray []) \<and>
   get_indexes plenty 12 0 10 \<noteq> Inr (Slice (12 mod 10) (12 mod 10) 1)"
proof -
  have "get_indexes plenty 12 0 10 = Inr (NDArray [])"
    by code_simp
  then show ?thesis
    by simp
qed

subsection \<open>The 32-bit reading of the arguments\<close>

text \<open>
  C10. The three arguments are taken modulo \<open>2^32\<close> without any check, and
  \<open>end = start + length\<close> is a 32-bit sum read as signed: the call equals the call on
  the residues of its arguments; it is refused for a negative length exactly when
  the wrapped length is negative; it returns a slice exactly when the wrapped length
  is not negative and the wrapped sum is at most the wrapped capacity, and the slice
  holds the wrapped start and the wrapped sum. So for non-negative arguments below
  \<open>2^31\<close> whose sum \<open>start + length\<close> reaches \<open>2^31\<close> the test is passed with the
  negative end \<open>start + length - 2^32\<close>, although the exact sum exceeds the capacity.
\<close>

theorem C10_arguments_and_test_modulo_2_32:
  "get_indexes h start length' maxsize =
     get_indexes h (start mod 2 ^ 32) (length' mod 2 ^ 32) (maxsize mod 2 ^ 32) \<and>
   (get_indexes h start length' maxsize = Inl (ValueError msg_length)) = (wrap32 length' < 0) \<and>
   is_slice (get_indexes h start length' maxsize) =
     (0 \<le> wrap32 length' \<and> wrap32 (start + length') \<le> wrap32 maxsize) \<and>
   (is_slice (get_indexes h start length' maxsize) \<longrightarrow>
      get_indexes h start length' maxsize =
        Inr (Slice (wrap32 start) (wrap32 (start + length')) 1)) \<and>
   (0 \<le> start \<and> start < 2 ^ 31 \<and> 0 \<le> length' \<and> length' < 2 ^ 31 \<and>
    2 ^ 31 \<le> start + length' \<and> 0 \<le> maxsize \<and> maxsize < 2 ^ 31 \<longrightarrow>
      get_indexes h start length' maxsize = Inr (Slice start (start + length' - 2 ^ 32) 1))"
proof -
  let ?run = "fill_data (word_of_int start) (word_of_int length') (word_of_int maxsize) 0
                (map (junk h) [0 ..< nat (wrap32 length')])"
  have c1: "get_indexes h start length' maxsize =
     get_indexes h (start mod 2 ^ 32) (length' mod 2 ^ 32) (maxsize mod 2 ^ 32)"
    unfolding get_indexes_def parse_III_def by (simp only: word_of_int_mod32)
  have not_len: "(case ?run of Inl e \<Rightarrow> Inl e | Inr data \<Rightarrow> Inr (NDArray data))
                   \<noteq> Inl (ValueError msg_length)"
    by (auto split: sum.splits dest: fill_data_error)
  have not_slice: "\<not> is_slice (case ?run of Inl e \<Rightarrow> Inl e | Inr data \<Rightarrow> Inr (NDArray data))"
    by (simp split: sum.splits)
  have c2: "(get_indexes h start length' maxsize = Inl (ValueError msg_length)) = (wrap32 length' < 0)"
    unfolding get_indexes_cases using not_len msg_distinct by simp
  have c3: "is_slice (get_indexes h start length' maxsize) =
     (0 \<le> wrap32 length' \<and> wrap32 (start + length') \<le> wrap32 maxsize)"
    unfolding get_indexes_cases using not_slice by auto
  have c4: "is_slice (get_indexes h start length' maxsize) \<longrightarrow>
      get_indexes h start length' maxsize =
        Inr (Slice (wrap32 start) (wrap32 (start + length')) 1)"
    unfolding get_indexes_cases using not_slice by auto
  have c5: "get_indexes h start length' maxsize = Inr (Slice start (start + length' - 2 ^ 32) 1)"
    if h: "0 \<le> start \<and> start < 2 ^ 31 \<and> 0 \<le> length' \<and> length' < 2 ^ 31 \<and>
           2 ^ 31 \<le> start + length' \<and> 0 \<le> maxsize \<and> maxsize < 2 ^ 31"
  proof -
    have ws: "wrap32 start = start"
      using h by (simp add: wrap32_def)
    have wl: "wrap32 length' = length'"
      using h by (simp add: wrap32_def)
    have wm: "wrap32 maxsize = maxsize"
      using h by (simp add: wrap32_def)
    define x where "x = start + length' + 2 ^ 31"
    have "(x - 2 ^ 32) mod 2 ^ 32 = x - 2 ^ 32"
      using h unfolding x_def by (intro mod_pos_pos_trivial) simp_all
    moreover have "(x - 2 ^ 32) mod 2 ^ 32 = x mod 2 ^ 32"
      by (rule minus_mod_self2)
    ultimately have "(start + length' + 2 ^ 31) mod 2 ^ 32 = start + length' + 2 ^ 31 - 2 ^ 32"
      unfolding x_def by simp
    then have we: "wrap32 (start + length') = start + length' - 2 ^ 32"
      by (simp add: wrap32_def)
    have "start + length' - 2 ^ 32 \<le> maxsize"
      using h by simp
    then show ?thesis
      unfolding get_indexes_cases using h by (simp add: ws wl wm we)
  qed
  from c5 have c5': "0 \<le> start \<and> start < 2 ^ 31 \<and> 0 \<le> length' \<and> length' < 2 ^ 31 \<and>
    2 ^ 31 \<le> start + length' \<and> 0 \<le> maxsize \<and> maxsize < 2 ^ 31 \<longrightarrow>
      get_indexes h start length' maxsize = Inr (Slice start (start + length' - 2 ^ 32) 1)"
    by (rule impI)
  show ?thesis
    by (intro conjI c1 c2 c3 c4 c5')
qed

text \<open>
  The sum \<open>2147483647 + 5\<close> wraps to \<open>-2147483644\<close>, and the start \<open>2^32 + 8\<close>
  is the start \<open>8\<close>.
\<close>

theorem C10_witness:
  "get_indexes plenty 2147483647 5 10 = Inr (Slice 2147483647 (- 2147483644) 1) \<and>
   get_indexes plenty 4294967304 5 10 = get_indexes plenty 8 5 10"
  using C10_arguments_and_test_modulo_2_32 [of plenty 2147483647 5 10]
    C10_arguments_and_test_modulo_2_32 [of plenty 4294967304 5 10]
  by simp

subsection \<open>Independence of the heap\<close>



section \<open>The claims about \<open>src/np_rw_buffer/_circular_indexes.c\<close>\<close>

text \<open>
  Where \<open>start % maxsize\<close> is defined the loop runs to the end and leaves the 64-bit
  sum \<open>(start % maxsize) + k\<close> in every slot from \<open>i\<close> on.
\<close>

lemma set_items_run:
  "\<not> rem_undefined start maxsize \<Longrightarrow> 0 \<le> sint i \<Longrightarrow> sint i \<le> sint length' \<Longrightarrow>
   length result = nat (sint length') \<Longrightarrow>
    set_items start length' maxsize i result =
      Inr (take (nat (sint i)) result @
           map (\<lambda>k. sint (c_rem start maxsize + word_of_nat k)) [nat (sint i) ..< nat (sint length')])"
proof (induction start length' maxsize i result rule: set_items.induct)
  case (1 start length' maxsize i result)
  show ?case
  proof (cases "i <s length'")
    case True
    then have lt: "sint i < sint length'"
      by (simp add: word_sless_alt)
    have nx: "sint (i + 1) = sint i + 1"
      using True by (rule sint_next_64)
    have def: "\<not> rem_undefined start maxsize"
      using "1.prems" by simp
    let ?v = "sint (c_rem start maxsize + i)"
    let ?n = "nat (sint i)"
    have n_lt: "?n < length result"
      using lt "1.prems" by simp
    have ih: "set_items start length' maxsize (i + 1) (result[?n := ?v]) =
      Inr (take (nat (sint (i + 1))) (result[?n := ?v]) @
           map (\<lambda>k. sint (c_rem start maxsize + word_of_nat k)) [nat (sint (i + 1)) ..< nat (sint length')])"
      using "1.IH" [OF True def] "1.prems" lt nx by simp
    have suc: "nat (sint (i + 1)) = Suc ?n"
      using nx "1.prems" by simp
    have tk: "take (Suc ?n) (result[?n := ?v]) = take ?n result @ [?v]"
      using n_lt by (simp add: take_Suc_conv_app_nth)
    have up: "[?n ..< nat (sint length')] = ?n # [Suc ?n ..< nat (sint length')]"
      using lt "1.prems" by (simp add: upt_conv_Cons)
    have wi: "word_of_nat ?n = i"
      using "1.prems" by simp
    have "set_items start length' maxsize i result =
            set_items start length' maxsize (i + 1) (result[?n := ?v])"
      using True def by (subst set_items.simps) simp
    then show ?thesis
      by (simp only: ih suc tk up wi list.map append_assoc append.simps)
  next
    case False
    then have "sint i = sint length'"
      using "1.prems" by (simp add: word_sless_alt)
    then show ?thesis
      using False "1.prems" by (subst set_items.simps) simp
  qed
qed

text \<open>The function after parsing, on the values of its three variables.\<close>

lemma get_indexes_vars_run:
  assumes len: "0 \<le> sint length'" and nz: "maxsize \<noteq> 0"
    and granted: "grants h (nat (sint length'))"
    and defined: "\<not> (sint start = - (2 ^ 63) \<and> maxsize = - 1)"
    and no_overflow: "sint start smod sint maxsize + sint length' \<le> 2 ^ 63"
  shows "\<exists>items. get_indexes_vars h start length' maxsize = Inr (Tuple items) \<and>
           int (length items) = sint length' \<and>
           (\<forall>i < length items. items ! i = sint start smod sint maxsize + int i) \<and>
           (\<forall>i < length items. sint maxsize - sint start smod sint maxsize \<le> int i
                \<longrightarrow> sint maxsize \<le> items ! i)"
proof -
  let ?r = "sint start smod sint maxsize"
  let ?n = "nat (sint length')"
  let ?items = "map (\<lambda>k. ?r + int k) [0 ..< ?n]"
  have def: "\<not> rem_undefined start maxsize"
    using nz defined by (simp add: rem_undefined_def)
  have "set_items start length' maxsize 0 (replicate ?n 0) =
      Inr (take (nat (sint (0 :: c_llong))) (replicate ?n 0) @
           map (\<lambda>k. sint (c_rem start maxsize + word_of_nat k)) [nat (sint (0 :: c_llong)) ..< ?n])"
    using len by (intro set_items_run [OF def]) simp_all
  also have "\<dots> = Inr (map (\<lambda>k. sint (c_rem start maxsize + word_of_nat k)) [0 ..< ?n])"
    by simp
  also have "map (\<lambda>k. sint (c_rem start maxsize + word_of_nat k)) [0 ..< ?n] = ?items"
  proof (rule map_cong [OF refl])
    fix k assume "k \<in> set [0 ..< ?n]"
    then have k: "int k < sint length'"
      by auto
    have lo: "- (2 ^ 63) \<le> ?r"
      using sint_c_rem_64 [of start maxsize] sint_ge [of "c_rem start maxsize"] by simp
    have "- (2 ^ 63) \<le> ?r + int k"
      using lo by linarith
    moreover have "?r + int k < 2 ^ 63"
      using k no_overflow by linarith
    ultimately have "sint (word_of_int (?r + int k) :: c_llong) = ?r + int k"
      by (rule sint_of_int_64)
    moreover have "c_rem start maxsize + word_of_nat k = word_of_int (?r + int k)"
      by (simp add: c_rem_def)
    ultimately show "sint (c_rem start maxsize + word_of_nat k) = ?r + int k"
      by simp
  qed
  finally have run: "set_items start length' maxsize 0 (replicate ?n 0) = Inr ?items" .
  have "\<not> length' <s 0"
    using len by (simp add: word_sless_alt)
  then have "get_indexes_vars h start length' maxsize = Inr (Tuple ?items)"
    using granted by (simp add: get_indexes_vars_def run)
  moreover have "int (length ?items) = sint length'"
    using len by simp
  moreover have "\<forall>i < length ?items. ?items ! i = ?r + int i"
    by simp
  moreover have "\<forall>i < length ?items. sint maxsize - ?r \<le> int i \<longrightarrow> sint maxsize \<le> ?items ! i"
    by simp
  ultimately show ?thesis
    by blast
qed

text \<open>
  Format \<open>i\<close> on a variable whose untouched half is zero: a non-negative argument
  is the value of the variable.
\<close>

lemma store_int_clean:
  assumes "var AND NOT (mask 32) = 0" and "0 \<le> k" and "k < 2 ^ 31"
  shows "sint (store_int var (word_of_int k)) = k"
proof -
  have "uint (word_of_int k :: c_int) = k"
    using assms by (simp add: uint_word_of_int take_bit_eq_mod)
  then have "(ucast (word_of_int k :: c_int) :: c_llong) = word_of_int k"
    by (simp add: ucast_eq)
  then have "store_int var (word_of_int k) = word_of_int k"
    using assms by (simp add: store_int_def)
  moreover have "sint (word_of_int k :: c_llong) = k"
    using assms by (intro sint_of_int_64) simp_all
  ultimately show ?thesis
    by simp
qed

text \<open>
  C9. For arguments \<open>0 \<le> start < 2^31\<close>, \<open>0 \<le> length < 2^31\<close> and
  \<open>0 < maxsize < 2^31\<close>, when the halves of the three \<open>long long\<close> variables
  that format \<open>"iii"\<close> does not write are zero and the tuple can be allocated, the
  function returns a tuple of exactly \<open>length\<close> elements whose \<open>i\<close>-th element is
  \<open>(start mod maxsize) + i\<close>, the index being added outside the remainder; so
  every element with \<open>i \<ge> maxsize - (start mod maxsize)\<close> is at least \<open>maxsize\<close>.
\<close>

theorem C9_tuple_index_outside_modulo:
  assumes s: "0 \<le> start" "start < 2 ^ 31"
    and l: "0 \<le> length'" "length' < 2 ^ 31"
    and m: "0 < maxsize" "maxsize < 2 ^ 31"
    and clean: "start0 AND NOT (mask 32) = 0" "length0 AND NOT (mask 32) = 0"
      "maxsize0 AND NOT (mask 32) = 0"
    and granted: "grants h (nat length')"
  shows "\<exists>items. get_indexes_tuple h (start0, length0, maxsize0) start length' maxsize =
             Inr (Tuple items) \<and>
           int (length items) = length' \<and>
           (\<forall>i < length items. items ! i = start mod maxsize + int i) \<and>
           (\<forall>i < length items. maxsize - start mod maxsize \<le> int i \<longrightarrow> maxsize \<le> items ! i)"
proof -
  let ?s = "store_int start0 (word_of_int start)"
  let ?l = "store_int length0 (word_of_int length')"
  let ?m = "store_int maxsize0 (word_of_int maxsize)"
  have ss: "sint ?s = start"
    using clean(1) s by (rule store_int_clean)
  have sl: "sint ?l = length'"
    using clean(2) l by (rule store_int_clean)
  have sm: "sint ?m = maxsize"
    using clean(3) m by (intro store_int_clean) simp_all
  have parsed: "parse_iii (start0, length0, maxsize0) start length' maxsize = Inr (?s, ?l, ?m)"
    using s l m by (simp add: parse_iii_def fits_int_def)
  have call: "get_indexes_tuple h (start0, length0, maxsize0) start length' maxsize =
          get_indexes_vars h ?s ?l ?m"
    by (simp add: get_indexes_tuple_def parsed)
  have r: "sint ?s smod sint ?m = start mod maxsize"
    using s m by (simp add: ss sm smod_nonneg)
  have "start mod maxsize \<le> start"
    using s m by (intro zmod_le_nonneg_dividend) simp
  then have nov: "sint ?s smod sint ?m + sint ?l \<le> 2 ^ 63"
    using s l by (simp add: r sl)
  have nz: "?m \<noteq> 0"
    using sm m by auto
  have def: "\<not> (sint ?s = - (2 ^ 63) \<and> ?m = - 1)"
    using ss s by simp
  have "\<exists>items. get_indexes_vars h ?s ?l ?m = Inr (Tuple items) \<and>
           int (length items) = sint ?l \<and>
           (\<forall>i < length items. items ! i = sint ?s smod sint ?m + int i) \<and>
           (\<forall>i < length items. sint ?m - sint ?s smod sint ?m \<le> int i \<longrightarrow> sint ?m \<le> items ! i)"
    using l granted nz def nov by (intro get_indexes_vars_run) (simp_all add: sl)
  then show ?thesis
    using s m by (simp add: call ss sl sm smod_nonneg)
qed

text \<open>
  The call \<open>(8, 5, 10)\<close> on a zeroed stack returns \<open>(8, 9, 10, 11, 12)\<close>: the
  elements from index 2 on are not below 10.
\<close>

theorem C9_witness:
  "get_indexes_tuple plenty (0, 0, 0) 8 5 10 = Inr (Tuple [8, 9, 10, 11, 12]) \<and>
   (\<exists>items. get_indexes_tuple plenty (0, 0, 0) 8 5 10 = Inr (Tuple items) \<and>
      int (length items) = 5 \<and>
      (\<forall>i < length items. items ! i = 8 + int i) \<and>
      (\<forall>i < length items. 2 \<le> int i \<longrightarrow> 10 \<le> items ! i))"
proof -
  have "get_indexes_tuple plenty (0, 0, 0) 8 5 10 = Inr (Tuple [8, 9, 10, 11, 12])"
    by code_simp
  moreover have "\<exists>items. get_indexes_tuple plenty (0, 0, 0) 8 5 10 = Inr (Tuple items) \<and>
      int (length items) = 5 \<and>
      (\<forall>i < length items. items ! i = 8 + int i) \<and>
      (\<forall>i < length items. 2 \<le> int i \<longrightarrow> 10 \<le> items ! i)"
    using C9_tuple_index_outside_modulo [of 8 5 10 0 0 0 plenty] by (simp add: plenty_def)
  ultimately show ?thesis
    by blast
qed

text \<open>
  Outside these bounds the statement fails. On a zeroed stack the start \<open>-3\<close> is
  read as \<open>2^32 - 3\<close>, so \<open>(-3, 3, 10)\<close> returns \<open>(3, 4, 5)\<close>, and the maxsize
  \<open>-3\<close> is read as \<open>2^32 - 3\<close>, so \<open>(8, 3, -3)\<close> returns \<open>(8, 9, 10)\<close>. On a
  stack of all ones the length \<open>5\<close> is read as negative and \<open>(8, 5, 10)\<close> fails
  with \<open>SystemError\<close>. The length \<open>2^31\<close> does not fit an \<open>int\<close> and is refused
  with \<open>OverflowError\<close>.
\<close>

theorem C9_counterexample:
  "(0::int) \<le> 3 \<and> (10::int) \<noteq> 0 \<and> (- 3 :: int) smod 10 = - 3 \<and> (- 3 :: int) mod 10 = 7 \<and>
   get_indexes_tuple plenty (0, 0, 0) (- 3) 3 10 = Inr (Tuple [3, 4, 5]) \<and>
   (- 3 :: int) \<noteq> 0 \<and> (8::int) smod (- 3) = 2 \<and> (8::int) mod (- 3) = - 1 \<and>
   get_indexes_tuple plenty (0, 0, 0) 8 3 (- 3) = Inr (Tuple [8, 9, 10]) \<and>
   get_indexes_tuple plenty (- 1, - 1, - 1) 8 5 10 = Inl SystemError \<and>
   get_indexes_tuple plenty (0, 0, 0) 8 2147483648 10 = Inl OverflowError"
proof -
  have "get_indexes_tuple plenty (0, 0, 0) (- 3) 3 10 = Inr (Tuple [3, 4, 5])"
    by code_simp
  moreover have "get_indexes_tuple plenty (0, 0, 0) 8 3 (- 3) = Inr (Tuple [8, 9, 10])"
    by code_simp
  moreover have "get_indexes_tuple plenty (- 1, - 1, - 1) 8 5 10 = Inl SystemError"
    by code_simp
  moreover have "get_indexes_tuple plenty (0, 0, 0) 8 2147483648 10 = Inl OverflowError"
    by code_simp
  moreover have "(- 3 :: int) smod 10 = - 3" "(8::int) smod (- 3) = 2"
    by (simp_all add: signed_modulo_int_def)
  ultimately show ?thesis
    by simp
qed

text \<open>
  C7. The two implementations do not denote the same positions on every valid
  input. At \<open>(8, 5, 10)\<close> the tuple of \<open>_circular_indexes.c\<close> holds
  \<open>8, 9, 10, 11, 12\<close> and the array of \<open>circular_indexes.c\<close> holds
  \<open>8, 9, 0, 1, 2\<close>.
\<close>

theorem C7_implementations_differ:
  "get_indexes_tuple plenty (0, 0, 0) 8 5 10 = Inr (Tuple [8, 9, 10, 11, 12]) \<and>
   get_indexes plenty 8 5 10 = Inr (NDArray [8, 9, 0, 1, 2]) \<and>
   positions (Tuple [8, 9, 10, 11, 12]) \<noteq> positions (NDArray [8, 9, 0, 1, 2])"
proof -
  have "get_indexes_tuple plenty (0, 0, 0) 8 5 10 = Inr (Tuple [8, 9, 10, 11, 12])"
    by code_simp
  moreover have "get_indexes plenty 8 5 10 = Inr (NDArray [8, 9, 0, 1, 2])"
    by code_simp
  moreover have "positions (Tuple [8, 9, 10, 11, 12]) \<noteq> positions (NDArray [8, 9, 0, 1, 2])"
    by simp
  ultimately show ?thesis
    by simp
qed

end
